theory Spec2Isabelle
  imports Main "HOL-Library.Word"
begin

section \<open>Exceptions and logging\<close>

text \<open>
  The exception classes of \<^verbatim>\<open>ue/loader.py\<close> and the built-in exceptions its code can
  raise. \<^verbatim>\<open>raise AssetParseError(assetname) from ex\<close> keeps \<^verbatim>\<open>ex\<close> as the cause,
  so that constructor carries it.
\<close>

datatype exn =
    ModNotFound string
  | AssetNotFound string
  | ExportNotFound string string
  | AssetParseError string exn
  | AssertionError
  | ValueError
  | KeyError string
  | AttributeError
  | FileNotFoundError
  | StreamError

text \<open>Messages handed to the module logger, in the order of the calls.\<close>

datatype log_entry = Debug string | Warning string

section \<open>Python dictionaries with their insertion order\<close>

text \<open>
  A \<^verbatim>\<open>dict\<close> iterates in insertion order, and \<^verbatim>\<open>UsageBasedCacheManager\<close> relies on it.
  It is an association list with distinct keys, oldest entry first.
\<close>

type_synonym ('k, 'v) dict = "('k \<times> 'v) list"

definition dict_get :: "('k, 'v) dict \<Rightarrow> 'k \<Rightarrow> 'v option" where
  "dict_get d k = map_of d k"

definition dict_del :: "'k \<Rightarrow> ('k, 'v) dict \<Rightarrow> ('k, 'v) dict" where
  "dict_del k d = filter (\<lambda>kv. fst kv \<noteq> k) d"

text \<open>\<^verbatim>\<open>d.pop(k, None)\<close>: the value or \<^verbatim>\<open>None\<close>, and the dictionary without the key.\<close>

definition dict_pop :: "'k \<Rightarrow> ('k, 'v) dict \<Rightarrow> 'v option \<times> ('k, 'v) dict" where
  "dict_pop k d = (dict_get d k, dict_del k d)"

text \<open>\<^verbatim>\<open>d[k] = v\<close>: an existing key keeps its position, a new key goes to the end.\<close>

fun dict_set :: "'k \<Rightarrow> 'v \<Rightarrow> ('k, 'v) dict \<Rightarrow> ('k, 'v) dict" where
  "dict_set k v [] = [(k, v)]"
| "dict_set k v ((k', v') # d) =
     (if k' = k then (k, v) # d else (k', v') # dict_set k v d)"

section \<open>UsageBasedCacheManager\<close>

text \<open>
  \<^verbatim>\<open>mem_used\<close> is what \<^verbatim>\<open>psutil.Process().memory_info().rss\<close> returns at the call; it
  is an input of the model. \<^verbatim>\<open>max_count\<close> and \<^verbatim>\<open>keep_count\<close> are numbers of entries,
  natural numbers; the subtraction of \<^verbatim>\<open>_maybe_purge\<close> is Python's, on integers. The values stored are \<^verbatim>\<open>UAsset\<close> objects, which are truthy
  (the class defines neither \<^verbatim>\<open>__bool__\<close> nor \<^verbatim>\<open>__len__\<close>), so \<^verbatim>\<open>if result:\<close> tests
  presence.
\<close>

record 'a usage_cache =
  cache :: "(string, 'a) dict"
  max_count :: nat
  max_memory :: int
  keep_count :: nat
  highest_memory_seen :: int
  log :: "log_entry list"

definition UsageBasedCacheManager :: "nat \<Rightarrow> int \<Rightarrow> nat \<Rightarrow> 'a usage_cache" where
  "UsageBasedCacheManager maxc maxm keep =
     \<lparr>cache = [], max_count = maxc, max_memory = maxm, keep_count = keep,
      highest_memory_seen = 0, log = []\<rparr>"

definition get_count :: "'a usage_cache \<Rightarrow> nat" where
  "get_count m = length (cache m)"

text \<open>
  A method that can raise returns the exception or \<open>()\<close>, next to the state it leaves
  behind. \<^verbatim>\<open>list(islice(self.cache, amount))\<close> raises \<^verbatim>\<open>ValueError\<close> for a negative
  amount; otherwise it names the first \<^verbatim>\<open>amount\<close> keys, which are then deleted one by
  one.
\<close>

definition u_purge :: "int \<Rightarrow> 'a usage_cache \<Rightarrow> (exn + unit) \<times> 'a usage_cache" where
  "u_purge amount m =
     (if amount < 0 then (Inl ValueError, m)
      else (let to_cull = map fst (take (nat amount) (cache m))
            in (Inr (), m\<lparr>cache := fold dict_del to_cull (cache m)\<rparr>)))"

definition u_maybe_purge :: "int \<Rightarrow> 'a usage_cache \<Rightarrow> (exn + unit) \<times> 'a usage_cache" where
  "u_maybe_purge mem_used m =
     (let m1 = (if mem_used > highest_memory_seen m
                then m\<lparr>highest_memory_seen := mem_used\<rparr> else m);
          cache_count = length (cache m1)
      in if cache_count \<ge> max_count m1
         then u_purge (int cache_count - int (keep_count m1))
                (m1\<lparr>log := log m1 @ [Debug ''Asset cache purge due to too many items'']\<rparr>)
         else (Inr (), m1))"

text \<open>The dictionary of \<^verbatim>\<open>add\<close> after the insertion and before \<^verbatim>\<open>_maybe_purge\<close>.\<close>

definition inserted :: "string \<Rightarrow> 'a \<Rightarrow> (string, 'a) dict \<Rightarrow> (string, 'a) dict" where
  "inserted name asset d = dict_set name asset (snd (dict_pop name d))"

definition add :: "string \<Rightarrow> 'a \<Rightarrow> int \<Rightarrow> 'a usage_cache \<Rightarrow> (exn + unit) \<times> 'a usage_cache" where
  "add name asset mem_used m =
     u_maybe_purge mem_used (m\<lparr>cache := inserted name asset (cache m)\<rparr>)"

definition lookup :: "string \<Rightarrow> 'a usage_cache \<Rightarrow> 'a option \<times> 'a usage_cache" where
  "lookup name m =
     (case dict_pop name (cache m) of
        (None, d) \<Rightarrow> (None, m\<lparr>cache := d\<rparr>)
      | (Some result, d) \<Rightarrow> (Some result, m\<lparr>cache := dict_set name result d\<rparr>))"

definition remove :: "string \<Rightarrow> 'a usage_cache \<Rightarrow> 'a usage_cache" where
  "remove name m =
     (let m1 = m\<lparr>log := log m @ [Debug (''Removing cache entry: '' @ name)]\<rparr>;
          (found, d) = dict_pop name (cache m1);
          m2 = m1\<lparr>cache := d\<rparr>
      in case found of
           None \<Rightarrow> m2\<lparr>log := log m2 @
                     [Warning (''Attempt to remove asset that was not found: '' @ name)]\<rparr>
         | Some _ \<Rightarrow> m2)"

text \<open>
  A run of \<^verbatim>\<open>add\<close> calls, each with the memory reading of its moment; an exception
  ends the run.
\<close>

fun add_all ::
  "(string \<times> 'a \<times> int) list \<Rightarrow> 'a usage_cache \<Rightarrow> (exn + unit) \<times> 'a usage_cache" where
  "add_all [] m = (Inr (), m)"
| "add_all ((name, asset, mem_used) # rest) m =
     (case add name asset mem_used m of
        (Inl e, m') \<Rightarrow> (Inl e, m')
      | (Inr _, m') \<Rightarrow> add_all rest m')"

text \<open>The test of \<^verbatim>\<open>_maybe_purge\<close> as \<^verbatim>\<open>add\<close> reaches it.\<close>

definition purge_triggered :: "string \<Rightarrow> 'a \<Rightarrow> 'a usage_cache \<Rightarrow> bool" where
  "purge_triggered name asset m =
     (length (inserted name asset (cache m)) \<ge> max_count m)"

text \<open>
  The configuration never changes, the keys stay distinct, and between two calls the
  count is below the bound.
\<close>

definition bounded :: "nat \<Rightarrow> nat \<Rightarrow> 'a usage_cache \<Rightarrow> bool" where
  "bounded M K m =
     (max_count m = M \<and> keep_count m = K \<and> distinct (map fst (cache m)) \<and>
      length (cache m) < M)"

section \<open>Parsed assets and the parsing context\<close>

text \<open>
  An entry of the export table as \<^verbatim>\<open>_load_asset\<close> reads it: \<^verbatim>\<open>str(export.name)\<close>,
  \<^verbatim>\<open>str(export.namespace)\<close> (the text \<^verbatim>\<open>None\<close> for a top-level export) and
  \<^verbatim>\<open>export.klass.value\<close>, here the name of the class.
\<close>

record export_item =
  export_name :: string
  export_namespace :: string
  export_klass :: string

text \<open>
  Modelled from the spec: \<^verbatim>\<open>get_ctx\<close> (ue/context.py) and
  \<^verbatim>\<open>UAsset.is_context_satisfied\<close> (ue/asset.py) are not among the sources. The spec
  gives a container a context flag recording whether it was parsed fully or only
  partially, and lets a partial container fail the requirement of a full parse.
  The field \<^verbatim>\<open>leaf_name\<close> of the record is the attribute \<^verbatim>\<open>asset.name\<close>.
\<close>

datatype parse_context = PartialParse | FullParse

record uasset =
  assetname :: string
  leaf_name :: string
  file_ext :: string
  exports :: "export_item list"
  default_export :: "export_item option"
  default_class :: "string option"
  ctx :: parse_context

definition is_context_satisfied :: "uasset \<Rightarrow> parse_context \<Rightarrow> bool" where
  "is_context_satisfied asset current_ctx =
     (\<not> (ctx asset = PartialParse \<and> current_ctx = FullParse))"

section \<open>ContextAwareCacheWrapper\<close>

text \<open>
  The wrapper holds one sub-manager, \<^verbatim>\<open>self.manager\<close>; in the loader's default stack it
  is a \<^verbatim>\<open>UsageBasedCacheManager\<close>, whose state is the state of the wrapper.
  \<^verbatim>\<open>current_ctx\<close> is the value of \<^verbatim>\<open>get_ctx()\<close> at the call.
\<close>

definition wrapper_lookup ::
  "parse_context \<Rightarrow> string \<Rightarrow> uasset usage_cache \<Rightarrow> uasset option \<times> uasset usage_cache" where
  "wrapper_lookup current_ctx name m =
     (case lookup name m of
        (None, m') \<Rightarrow> (None, m')
      | (Some asset, m') \<Rightarrow>
          if \<not> is_context_satisfied asset current_ctx
          then (None, m'\<lparr>log := log m' @ [Debug (''Re-parsing asset for more data: '' @ name)]\<rparr>)
          else (Some asset, m'))"

definition wrapper_add ::
  "string \<Rightarrow> uasset \<Rightarrow> int \<Rightarrow> uasset usage_cache \<Rightarrow> (exn + unit) \<times> uasset usage_cache" where
  "wrapper_add name asset mem_used m = add name asset mem_used m"

definition wrapper_remove :: "string \<Rightarrow> uasset usage_cache \<Rightarrow> uasset usage_cache" where
  "wrapper_remove name m = remove name m"

definition wrapper_get_count :: "uasset usage_cache \<Rightarrow> nat" where
  "wrapper_get_count m = get_count m"

section \<open>Strings as Python handles them\<close>

text \<open>
  Strings are lists of characters. The methods below are those of \<^verbatim>\<open>str\<close> on ASCII
  text: \<^verbatim>\<open>lower\<close> changes the letters A to Z, \<^verbatim>\<open>isnumeric\<close> holds of a non-empty
  string of digits, and \<^verbatim>\<open>strip()\<close> removes the white space characters (codes 9 to 13
  and 28 to 32).
\<close>

definition lower_char :: "char \<Rightarrow> char" where
  "lower_char c =
     (if of_char c \<ge> (65::nat) \<and> of_char c \<le> (90::nat)
      then char_of (of_char c + (32::nat)) else c)"

definition lower :: "string \<Rightarrow> string" where
  "lower s = map lower_char s"

definition is_digit :: "char \<Rightarrow> bool" where
  "is_digit c = (of_char c \<ge> (48::nat) \<and> of_char c \<le> (57::nat))"

definition isnumeric :: "string \<Rightarrow> bool" where
  "isnumeric s = (s \<noteq> [] \<and> list_all is_digit s)"

definition is_space :: "char \<Rightarrow> bool" where
  "is_space c =
     ((of_char c \<ge> (9::nat) \<and> of_char c \<le> (13::nat)) \<or>
      (of_char c \<ge> (28::nat) \<and> of_char c \<le> (32::nat)))"

text \<open>\<^verbatim>\<open>s.strip()\<close> and \<^verbatim>\<open>s.strip(c)\<close> for a single character \<^verbatim>\<open>c\<close>.\<close>

definition strip_where :: "(char \<Rightarrow> bool) \<Rightarrow> string \<Rightarrow> string" where
  "strip_where P s = rev (dropWhile P (rev (dropWhile P s)))"

definition strip :: "string \<Rightarrow> string" where
  "strip s = strip_where is_space s"

definition strip_char :: "char \<Rightarrow> string \<Rightarrow> string" where
  "strip_char c s = strip_where (\<lambda>x. x = c) s"

text \<open>\<^verbatim>\<open>s.replace(a, b)\<close> for single characters.\<close>

definition replace_char :: "char \<Rightarrow> char \<Rightarrow> string \<Rightarrow> string" where
  "replace_char a b s = map (\<lambda>x. if x = a then b else x) s"

text \<open>\<^verbatim>\<open>s.split(sep)\<close> for a single character: never the empty list.\<close>

fun split :: "char \<Rightarrow> string \<Rightarrow> string list" where
  "split sep [] = [[]]"
| "split sep (c # cs) =
     (if c = sep then [] # split sep cs
      else (c # hd (split sep cs)) # tl (split sep cs))"

text \<open>\<^verbatim>\<open>sep.join(parts)\<close>.\<close>

fun join :: "string \<Rightarrow> string list \<Rightarrow> string" where
  "join sep [] = []"
| "join sep [p] = p"
| "join sep (p # q # ps) = p @ sep @ join sep (q # ps)"

text \<open>\<^verbatim>\<open>s.startswith(p)\<close>.\<close>

definition startswith :: "string \<Rightarrow> string \<Rightarrow> bool" where
  "startswith s p = (take (length p) s = p)"

section \<open>Mod resolver and asset names\<close>

text \<open>
  The two methods of the abstract class \<^verbatim>\<open>ModResolver\<close>; each returns a string or
  \<^verbatim>\<open>None\<close>.
\<close>

record modresolver =
  get_name_from_id :: "string \<Rightarrow> string option"
  get_id_from_name :: "string \<Rightarrow> string option"

text \<open>
  \<^verbatim>\<open>AssetLoader.clean_asset_name\<close>. \<^verbatim>\<open>if not mod_name\<close> holds of \<^verbatim>\<open>None\<close> and of the
  empty string. The guards make every index read in range.
\<close>

definition clean_asset_name :: "modresolver \<Rightarrow> string \<Rightarrow> exn + string" where
  "clean_asset_name R name0 =
     (let name1 = (if CHR ''.'' \<in> set name0
                   then takeWhile (\<lambda>c. c \<noteq> CHR ''.'') name0 else name0);
          name2 = replace_char (CHR 0x5C) CHR ''/''
                    (strip_char (CHR 0x5C) (strip_char CHR ''/'' (strip name1)));
          parts = split CHR ''/'' name2;
          converted =
            (if length parts > 2 \<and> lower (parts ! 1) = ''mods'' \<and> isnumeric (parts ! 2)
             then (case get_name_from_id R (parts ! 2) of
                     None \<Rightarrow> Inl (ModNotFound (parts ! 2))
                   | Some mod_name \<Rightarrow>
                       if mod_name = [] then Inl (ModNotFound (parts ! 2))
                       else Inr (parts[2 := mod_name]))
             else Inr parts)
      in case converted of
           Inl e \<Rightarrow> Inl e
         | Inr parts1 \<Rightarrow>
             (let parts2 = (if parts1 \<noteq> [] \<and> lower (parts1 ! 0) = ''content''
                            then parts1[0 := ''Game''] else parts1)
              in Inr (CHR ''/'' # join ''/'' parts2)))"

text \<open>
  The shape of a cleaned name that a second cleaning leaves alone: nothing is left to
  trim at its ends. And the names a resolver may register for a second cleaning not to
  read them as an id, a class qualifier or a separator.
\<close>

definition well_trimmed :: "string \<Rightarrow> bool" where
  "well_trimmed r =
     (r = ''/'' \<or>
      (\<not> startswith r ''//'' \<and> last r \<noteq> CHR ''/'' \<and> \<not> is_space (last r)))"

definition clean_mod_name :: "string \<Rightarrow> bool" where
  "clean_mod_name n =
     (\<not> isnumeric n \<and> CHR ''.'' \<notin> set n \<and> CHR ''/'' \<notin> set n \<and> CHR 0x5C \<notin> set n)"

definition example_resolver :: modresolver where
  "example_resolver =
     \<lparr>get_name_from_id = (\<lambda>i. if i = ''123'' then Some ''MyMod'' else None),
      get_id_from_name = (\<lambda>n. if lower n = ''mymod'' then Some ''123'' else None)\<rparr>"

definition numeric_resolver :: modresolver where
  "numeric_resolver =
     \<lparr>get_name_from_id =
        (\<lambda>i. if i = ''1'' then Some ''2'' else if i = ''2'' then Some ''3'' else None),
      get_id_from_name = (\<lambda>n. None)\<rparr>"

section \<open>AssetLoader: parsing one asset\<close>

text \<open>
  \<^verbatim>\<open>ue/asset.py\<close> is not among the sources. What \<^verbatim>\<open>_load_asset\<close> calls of it is a
  parameter of the model: the constructor \<^verbatim>\<open>UAsset(MemoryStream(mem, 0, len(mem)))\<close> and
  the two phases \<^verbatim>\<open>asset.deserialise()\<close> and \<^verbatim>\<open>asset.link()\<close>, which work on the asset
  and return it as they leave it, or the exception they raise. The exceptions are those
  of class \<^verbatim>\<open>Exception\<close>, which \<^verbatim>\<open>except Exception\<close> catches.
\<close>

type_synonym byte = "8 word"

record asset_ops =
  new_asset :: "byte list \<Rightarrow> uasset"
  deserialise :: "uasset \<Rightarrow> exn + uasset"
  link :: "uasset \<Rightarrow> exn + uasset"

text \<open>
  The loader. \<^verbatim>\<open>self.cache\<close> is the default stack, a context-aware wrapper around a
  usage-ordered manager. \<^verbatim>\<open>buffers\<close> lists the raw buffers handed out by
  \<^verbatim>\<open>load_raw_asset\<close>, oldest first, each with the number of \<^verbatim>\<open>release()\<close> calls it has
  received.
\<close>

record loader =
  lcache :: "uasset usage_cache"
  modresolver :: modresolver
  buffers :: "nat list"
  loader_log :: "log_entry list"

text \<open>How the \<^verbatim>\<open>try\<close> block of \<^verbatim>\<open>_load_asset\<close> is left.\<close>

datatype 'a outcome = Fell_through 'a | Returned 'a | Raised exn

text \<open>
  The body of the outer \<^verbatim>\<open>try\<close>: the asset is set up, deserialised and, unless
  \<^verbatim>\<open>doNotLink\<close>, linked; an exception of either phase is re-raised as
  \<^verbatim>\<open>AssetParseError(assetname)\<close> with the exception as its cause.
\<close>

definition prepared :: "asset_ops \<Rightarrow> string \<Rightarrow> byte list \<Rightarrow> string \<Rightarrow> uasset" where
  "prepared ops name mem ext =
     (new_asset ops mem)
       \<lparr>assetname := name, leaf_name := last (split CHR ''/'' name), file_ext := ext\<rparr>"

definition load_asset_try ::
  "asset_ops \<Rightarrow> string \<Rightarrow> bool \<Rightarrow> byte list \<Rightarrow> string \<Rightarrow> uasset outcome" where
  "load_asset_try ops name doNotLink mem ext =
     (let asset = prepared ops name mem ext
      in case deserialise ops asset of
           Inl ex \<Rightarrow> Raised (AssetParseError name ex)
         | Inr asset1 \<Rightarrow>
             if doNotLink then Returned asset1
             else (case link ops asset1 of
                     Inl ex \<Rightarrow> Raised (AssetParseError name ex)
                   | Inr asset2 \<Rightarrow> Fell_through asset2))"

text \<open>
  The selection of the default export, the part of \<^verbatim>\<open>_load_asset\<close> after the
  \<^verbatim>\<open>try\<close> statement. It returns the asset and the warnings logged. An export is an
  object and so truthy: \<^verbatim>\<open>if asset.default_export\<close> tests that one was chosen.
\<close>

definition select_default_export :: "string \<Rightarrow> uasset \<Rightarrow> uasset \<times> log_entry list" where
  "select_default_export name asset =
     (let leafname = last (split CHR ''/'' name);
          top_exports = filter (\<lambda>export. export_namespace export = ''None'') (exports asset);
          exports1 = filter (\<lambda>export. startswith (export_name export) ''Default__'') top_exports;
          log1 = (if length exports1 > 1
                  then [Warning (''Found more than one Default__ entry in '' @ name @ ''!'')]
                  else []);
          asset1 = asset\<lparr>default_export := (case exports1 of [] \<Rightarrow> None | e # _ \<Rightarrow> Some e)\<rparr>;
          asset2 = (case default_export asset1 of
                      Some e \<Rightarrow> asset1\<lparr>default_class := Some (export_klass e)\<rparr>
                    | None \<Rightarrow> asset1)
      in case default_export asset2 of
           Some _ \<Rightarrow> (asset2, log1)
         | None \<Rightarrow>
             (let exports2 = filter (\<lambda>export. lower (export_name export) = lower leafname)
                               top_exports
              in if length exports2 > 1
                 then (asset2, log1 @
                         [Warning (''Found more than <assetname> export in '' @ name @ ''!'')])
                 else (asset2\<lparr>default_export :=
                                 (case exports2 of [] \<Rightarrow> None | e # _ \<Rightarrow> Some e)\<rparr>, log1)))"

text \<open>\<^verbatim>\<open>mem.release()\<close> on the buffer at position \<open>b\<close>.\<close>

definition release :: "nat \<Rightarrow> loader \<Rightarrow> loader" where
  "release b st = st\<lparr>buffers := (buffers st)[b := Suc (buffers st ! b)]\<rparr>"

text \<open>
  \<^verbatim>\<open>AssetLoader._load_asset\<close>. \<^verbatim>\<open>load_raw_asset\<close> reads the file system and is an input
  of the model: it returns the buffer and the extension found, or the exception it
  raises, and then no buffer exists. The \<^verbatim>\<open>finally\<close> clause runs however the \<^verbatim>\<open>try\<close>
  block is left. \<^verbatim>\<open>mem_used\<close> is the memory reading of \<^verbatim>\<open>_maybe_purge\<close>.
\<close>

definition u_load_asset ::
  "asset_ops \<Rightarrow> (string \<Rightarrow> exn + byte list \<times> string) \<Rightarrow> string \<Rightarrow> bool \<Rightarrow> bool \<Rightarrow> bool \<Rightarrow>
   int \<Rightarrow> loader \<Rightarrow> (exn + uasset) \<times> loader" where
  "u_load_asset ops load_raw_asset name doNotLink quiet cache_result mem_used st =
     (let st0 = (if \<not> quiet
                 then st\<lparr>loader_log := loader_log st @ [Debug (''Loading asset: '' @ name)]\<rparr>
                 else st)
      in case load_raw_asset name of
           Inl e \<Rightarrow> (Inl e, st0)
         | Inr (mem, ext) \<Rightarrow>
             (let b = length (buffers st0);
                  st1 = st0\<lparr>buffers := buffers st0 @ [0]\<rparr>;
                  out = load_asset_try ops name doNotLink mem ext;
                  st2 = release b st1
              in case out of
                   Raised e \<Rightarrow> (Inl e, st2)
                 | Returned asset \<Rightarrow> (Inr asset, st2)
                 | Fell_through asset \<Rightarrow>
                     (let (asset1, msgs) = select_default_export name asset;
                          st3 = st2\<lparr>loader_log := loader_log st2 @ msgs\<rparr>
                      in if cache_result
                         then (case wrapper_add name asset1 mem_used (lcache st3) of
                                 (Inl e, c) \<Rightarrow> (Inl e, st3\<lparr>lcache := c\<rparr>)
                               | (Inr _, c) \<Rightarrow> (Inr asset1, st3\<lparr>lcache := c\<rparr>))
                         else (Inr asset1, st3))))"

text \<open>\<^verbatim>\<open>AssetLoader.__delitem__\<close>.\<close>

definition delitem :: "string \<Rightarrow> loader \<Rightarrow> (exn + unit) \<times> loader" where
  "delitem name st =
     (case clean_asset_name (modresolver st) name of
        Inl e \<Rightarrow> (Inl e, st)
      | Inr cleaned \<Rightarrow> (Inr (), st\<lparr>lcache := wrapper_remove cleaned (lcache st)\<rparr>))"

text \<open>Sample data: a parser that fails in the link phase, one that succeeds, a loader.\<close>

definition blank_asset :: uasset where
  "blank_asset =
     \<lparr>assetname = [], leaf_name = [], file_ext = [], exports = [],
      default_export = None, default_class = None, ctx = FullParse\<rparr>"

definition failing_ops :: asset_ops where
  "failing_ops =
     \<lparr>new_asset = (\<lambda>mem. blank_asset), deserialise = (\<lambda>a. Inr a),
      link = (\<lambda>a. Inl AssertionError)\<rparr>"

definition sample_exports :: "export_item list" where
  "sample_exports =
     [\<lparr>export_name = ''Default__Inner'', export_namespace = ''Foo_C'', export_klass = ''X''\<rparr>,
      \<lparr>export_name = ''Foo'', export_namespace = ''None'', export_klass = ''Y''\<rparr>,
      \<lparr>export_name = ''foo'', export_namespace = ''None'', export_klass = ''Z''\<rparr>]"

definition working_ops :: asset_ops where
  "working_ops =
     \<lparr>new_asset = (\<lambda>mem. blank_asset), deserialise = (\<lambda>a. Inr (a\<lparr>exports := sample_exports\<rparr>)),
      link = (\<lambda>a. Inr a)\<rparr>"

definition sample_raw :: "string \<Rightarrow> exn + byte list \<times> string" where
  "sample_raw name =
     (if name = ''/Game/Foo'' then Inr ([1, 2, 3], ''.uasset'') else Inl (AssetNotFound name))"

definition sample_loader :: loader where
  "sample_loader =
     \<lparr>lcache = UsageBasedCacheManager 3000 (6 * 1024 * 1024 * 1024) 500,
      modresolver = example_resolver, buffers = [], loader_log = []\<rparr>"

text \<open>
  The words of the selection rule: the top-level exports of a container in table order,
  the exports marked as templates, and the exports named as the container's leaf name,
  letter case apart.
\<close>

definition top_level :: "uasset \<Rightarrow> export_item list" where
  "top_level asset = filter (\<lambda>e. export_namespace e = ''None'') (exports asset)"

definition is_template :: "export_item \<Rightarrow> bool" where
  "is_template e = startswith (export_name e) ''Default__''"

definition names_leaf :: "string \<Rightarrow> export_item \<Rightarrow> bool" where
  "names_leaf name e = (lower (export_name e) = lower (last (split CHR ''/'' name)))"

definition linked_sample :: uasset where
  "linked_sample = blank_asset\<lparr>exports := sample_exports\<rparr>"

section \<open>Case-insensitive path matching\<close>

text \<open>
  A \<^verbatim>\<open>Path\<close> is the list of its segments; \<^verbatim>\<open>path.parent\<close> drops the last one and
  \<^verbatim>\<open>path.name\<close> is the last one. The file system is an input: which paths exist, and
  what \<^verbatim>\<open>iterdir\<close> yields for a directory (the paths of its entries, in the order of
  the iteration) or raises.
\<close>

type_synonym path = "string list"

record filesystem =
  path_exists :: "path \<Rightarrow> bool"
  iterdir :: "path \<Rightarrow> exn + path list"

definition parent :: "path \<Rightarrow> path" where
  "parent p = butlast p"

definition path_name :: "path \<Rightarrow> string" where
  "path_name p = (if p = [] then [] else last p)"

text \<open>
  The module state: the dictionary \<^verbatim>\<open>path_match_cache\<close>, whose values are a path or
  \<^verbatim>\<open>None\<close>, and, to tell a scan from an answer out of the memo, the number of
  directory iterations started so far.
\<close>

record path_matcher =
  path_match_cache :: "path \<rightharpoonup> path option"
  scans :: nat

definition find_caseinsensitive_path_match ::
  "filesystem \<Rightarrow> path \<Rightarrow> path_matcher \<Rightarrow> (exn + path option) \<times> path_matcher" where
  "find_caseinsensitive_path_match fs p s =
     (case path_match_cache s p of
        Some cached \<Rightarrow> (Inr cached, s)
      | None \<Rightarrow>
          if path_exists fs p
          then (Inr (Some p), s\<lparr>path_match_cache := (path_match_cache s)(p \<mapsto> Some p)\<rparr>)
          else (let name = lower (path_name p);
                    s1 = s\<lparr>scans := Suc (scans s)\<rparr>
                in case iterdir fs (parent p) of
                     Inl e \<Rightarrow> (Inl e, s1)
                   | Inr entries \<Rightarrow>
                       (case find (\<lambda>found. lower (path_name found) = name) entries of
                          Some found \<Rightarrow>
                            (Inr (Some found),
                             s1\<lparr>path_match_cache := (path_match_cache s1)(p \<mapsto> Some found)\<rparr>)
                        | None \<Rightarrow> (Inr None, s1))))"

text \<open>A directory \<^verbatim>\<open>Content\<close> holding the single file \<^verbatim>\<open>Foo.uasset\<close>.\<close>

definition sample_fs :: filesystem where
  "sample_fs =
     \<lparr>path_exists = (\<lambda>p. p = [''Content''] \<or> p = [''Content'', ''Foo.uasset'']),
      iterdir = (\<lambda>p. if p = [''Content''] then Inr [[''Content'', ''Foo.uasset'']]
                      else Inl FileNotFoundError)\<rparr>"

definition empty_matcher :: path_matcher where
  "empty_matcher = \<lparr>path_match_cache = Map.empty, scans = 0\<rparr>"

section \<open>Proxy structures\<close>

text \<open>
  \<^verbatim>\<open>vars(self)\<close> of a proxy: each field name with its map from index to value. The
  argument of \<^verbatim>\<open>update\<close> is a mapping of mappings; the lists below are their
  \<^verbatim>\<open>items()\<close> in iteration order. \<^verbatim>\<open>target_dict[name]\<close> raises \<^verbatim>\<open>KeyError\<close> for a
  missing key.
\<close>

type_synonym 'v proxy = "string \<rightharpoonup> (int \<rightharpoonup> 'v)"

fun update_field :: "(int \<times> 'v) list \<Rightarrow> (int \<rightharpoonup> 'v) \<Rightarrow> (int \<rightharpoonup> 'v)" where
  "update_field [] target_field = target_field"
| "update_field ((i, v) # rest) target_field = update_field rest (target_field(i \<mapsto> v))"

fun update :: "(string \<times> (int \<times> 'v) list) list \<Rightarrow> 'v proxy \<Rightarrow> exn + 'v proxy" where
  "update [] target_dict = Inr target_dict"
| "update ((name, field_values) # rest) target_dict =
     (let target_dict1 = (if target_dict name = None
                          then target_dict(name \<mapsto> Map.empty) else target_dict)
      in case target_dict1 name of
           None \<Rightarrow> Inl (KeyError name)
         | Some target_field \<Rightarrow>
             update rest (target_dict1(name \<mapsto> update_field field_values target_field)))"

text \<open>The field map a name has in a proxy, empty when the name is not a field.\<close>

definition field_of :: "'v proxy \<Rightarrow> string \<Rightarrow> (int \<rightharpoonup> 'v)" where
  "field_of t name = (case t name of None \<Rightarrow> Map.empty | Some m \<Rightarrow> m)"

text \<open>A proxy with one default field of two indices.\<close>

definition sample_proxy :: "nat proxy" where
  "sample_proxy = [''Health'' \<mapsto> [0 \<mapsto> 100, 1 \<mapsto> 50]]"

section \<open>Binary streams and the instanced-geometry blob\<close>

text \<open>
  Modelled from the spec: \<^verbatim>\<open>MemoryStream\<close> (ue/stream.py) and \<^verbatim>\<open>StripDataFlags\<close>
  (ue/coretypes.py) are not among the sources. The stream is a cursor over the buffer:
  a read takes the bytes at the offset, little-endian for an integer, and moves the
  offset on; a read past the end raises. \<^verbatim>\<open>readFloat\<close> returns the four bytes as their
  bit pattern, which is not interpreted here. The strip flags are two bytes, the global
  and the class flags; bit 0 of the global flags strips for the editor, bit 1 for the
  server, and a custom flag is tested against the class flags.
\<close>

unbundle bit_operations_syntax

record stream =
  data :: "byte list"
  offset :: nat

definition then_do :: "exn + 'a \<Rightarrow> ('a \<Rightarrow> exn + 'b) \<Rightarrow> exn + 'b" where
  "then_do r f = (case r of Inl e \<Rightarrow> Inl e | Inr v \<Rightarrow> f v)"

fun le_nat :: "byte list \<Rightarrow> nat" where
  "le_nat [] = 0"
| "le_nat (b # bs) = unat b + 256 * le_nat bs"

definition read_bytes :: "nat \<Rightarrow> stream \<Rightarrow> exn + (byte list \<times> stream)" where
  "read_bytes n s =
     (if offset s + n \<le> length (data s)
      then Inr (take n (drop (offset s) (data s)), s\<lparr>offset := offset s + n\<rparr>)
      else Inl StreamError)"

definition readUInt32 :: "stream \<Rightarrow> exn + (nat \<times> stream)" where
  "readUInt32 s = then_do (read_bytes 4 s) (\<lambda>(bs, s'). Inr (le_nat bs, s'))"

definition readUInt8 :: "stream \<Rightarrow> exn + (byte \<times> stream)" where
  "readUInt8 s = then_do (read_bytes 1 s) (\<lambda>(bs, s'). Inr (hd bs, s'))"

definition readBool8 :: "stream \<Rightarrow> exn + (bool \<times> stream)" where
  "readBool8 s = then_do (readUInt8 s) (\<lambda>(b, s'). Inr (b \<noteq> 0, s'))"

definition readFloat :: "stream \<Rightarrow> exn + (nat \<times> stream)" where
  "readFloat s = then_do (read_bytes 4 s) (\<lambda>(bs, s'). Inr (le_nat bs, s'))"

text \<open>\<^verbatim>\<open>self.stream.offset += n\<close>.\<close>

definition skip :: "nat \<Rightarrow> stream \<Rightarrow> stream" where
  "skip n s = s\<lparr>offset := offset s + n\<rparr>"

record strip_flags =
  global_strip_flags :: byte
  class_strip_flags :: byte

definition StripDataFlags_deserialise :: "stream \<Rightarrow> exn + (strip_flags \<times> stream)" where
  "StripDataFlags_deserialise s =
     then_do (readUInt8 s) (\<lambda>(g, s1).
     then_do (readUInt8 s1) (\<lambda>(c, s2).
       Inr (\<lparr>global_strip_flags = g, class_strip_flags = c\<rparr>, s2)))"

definition is_stripped_for_editor :: "strip_flags \<Rightarrow> bool" where
  "is_stripped_for_editor f = bit (global_strip_flags f) 0"

definition is_stripped_for_server :: "strip_flags \<Rightarrow> bool" where
  "is_stripped_for_server f = bit (global_strip_flags f) 1"

definition is_stripped_for_custom :: "strip_flags \<Rightarrow> nat \<Rightarrow> bool" where
  "is_stripped_for_custom f flag = (class_strip_flags f AND of_nat flag \<noteq> 0)"

text \<open>
  \<^verbatim>\<open>InstancedStaticMeshComponentObject._deserialise\<close> (ue/objects.py). One turn of the
  loop over the levels of detail:
\<close>

definition lod_section :: "stream \<Rightarrow> exn + stream" where
  "lod_section s =
     then_do (StripDataFlags_deserialise s) (\<lambda>(strip_flags, s1).
       let s2 = (if \<not> is_stripped_for_server strip_flags then skip 8 s1 else s1)
       in then_do
            (if \<not> is_stripped_for_custom strip_flags 1
             then then_do (readBool8 s2) (\<lambda>(has_color_data, s3).
                    if has_color_data
                    then then_do (StripDataFlags_deserialise s3) (\<lambda>(color_strip, s4).
                         then_do (readUInt32 (skip 4 s4)) (\<lambda>(color_num, s5).
                           if color_num > 0 \<and> \<not> is_stripped_for_server color_strip
                           then Inr (skip 8 (skip (4 * color_num) s5))
                           else Inr s5))
                    else Inr s3)
             else Inr s2)
            (\<lambda>s6.
               if \<not> is_stripped_for_editor strip_flags
               then then_do (readUInt32 s6) (\<lambda>(paint_count, s7).
                      Inr ((skip (3 * 4 + 4 * 4 + 1) ^^ paint_count) s7))
               else Inr s6))"

fun lod_sections :: "nat \<Rightarrow> stream \<Rightarrow> exn + stream" where
  "lod_sections 0 s = Inr s"
| "lod_sections (Suc n) s = then_do (lod_section s) (lod_sections n)"

text \<open>The loop over the instances; each adds the origin of its matrix.\<close>

fun read_instances ::
  "nat \<Rightarrow> stream \<Rightarrow> (nat \<times> nat \<times> nat) list \<Rightarrow> exn + ((nat \<times> nat \<times> nat) list \<times> stream)" where
  "read_instances 0 s instances = Inr (instances, s)"
| "read_instances (Suc n) s instances =
     then_do (readFloat (skip (4 * 3 * 4) s)) (\<lambda>(x, s1).
     then_do (readFloat s1) (\<lambda>(y, s2).
     then_do (readFloat s2) (\<lambda>(z, s3).
       read_instances n (skip 16 (skip 4 s3)) (instances @ [(x, y, z)]))))"

text \<open>
  The whole parser. Its result is the value of the field \<^verbatim>\<open>visible_instances\<close> and the
  stream as it is left; \<^verbatim>\<open>assert\<close> raises \<^verbatim>\<open>AssertionError\<close>.
\<close>

definition u_deserialise :: "stream \<Rightarrow> exn + ((nat \<times> nat \<times> nat) list \<times> stream)" where
  "u_deserialise s =
     then_do (readUInt32 s) (\<lambda>(lod_count, s1).
     then_do (lod_sections lod_count s1) (\<lambda>s2.
     then_do (readUInt32 s2) (\<lambda>(struct_size, s3).
       if struct_size \<noteq> 80 then Inl AssertionError
       else then_do (readUInt32 s3) (\<lambda>(num_instances, s4).
            then_do (read_instances num_instances s4 []) (\<lambda>(instances, s5).
              Inr (instances, s5))))))"

text \<open>
  The stored struct size that the parser reads: the integer after the sections of all
  levels of detail, when the stream reaches that far.
\<close>

definition stored_struct_size :: "stream \<Rightarrow> exn + nat" where
  "stored_struct_size s =
     then_do (readUInt32 s) (\<lambda>(lod_count, s1).
     then_do (lod_sections lod_count s1) (\<lambda>s2.
     then_do (readUInt32 s2) (\<lambda>(struct_size, s3). Inr struct_size)))"

text \<open>
  \<^verbatim>\<open>asset.deserialise()\<close> runs the blob parser of an export and does not catch what it
  raises: an exception of the first result is the second result.
\<close>

definition raises_as :: "exn + 'a \<Rightarrow> exn + 'b \<Rightarrow> bool" where
  "raises_as r1 r2 = (case r1 of Inl e \<Rightarrow> r2 = Inl e | Inr _ \<Rightarrow> True)"

text \<open>
  Sample streams: no level of detail and a struct size of 81; one level of detail, the
  struct size 80 and one instance at the origin (1, 2, 3).
\<close>

definition bad_stream :: stream where
  "bad_stream = \<lparr>data = [0, 0, 0, 0, 81, 0, 0, 0, 1, 0, 0, 0], offset = 0\<rparr>"

definition good_stream :: stream where
  "good_stream =
     \<lparr>data = [1, 0, 0, 0, 3, 1] @ [80, 0, 0, 0, 1, 0, 0, 0] @ replicate 48 0 @
              [1, 0, 0, 0, 2, 0, 0, 0, 3, 0, 0, 0] @ replicate 20 0,
      offset = 0\<rparr>"

definition blob_ops :: "stream \<Rightarrow> asset_ops" where
  "blob_ops s =
     \<lparr>new_asset = (\<lambda>mem. blank_asset),
      deserialise = (\<lambda>a. then_do (u_deserialise s) (\<lambda>r. Inr a)),
      link = (\<lambda>a. Inr a)\<rparr>"

section \<open>Properties of the usage-ordered cache\<close>

lemma dict_del_absent: "k \<notin> fst ` set d \<Longrightarrow> dict_del k d = d"
  by (induction d) (auto simp: dict_del_def)

lemma dict_get_absent: "k \<notin> fst ` set d \<Longrightarrow> dict_get d k = None"
  by (simp add: dict_get_def map_of_eq_None_iff)

lemma dict_set_absent: "k \<notin> fst ` set d \<Longrightarrow> dict_set k v d = d @ [(k, v)]"
  by (induction d) auto

lemma dict_del_removes: "k \<notin> fst ` set (dict_del k d)"
  by (auto simp: dict_del_def)

lemma length_dict_del: "length (dict_del k d) \<le> length d"
  by (simp add: dict_del_def)

lemma distinct_dict_del: "distinct (map fst d) \<Longrightarrow> distinct (map fst (dict_del k d))"
  by (simp add: dict_del_def distinct_map_filter)

lemma inserted_eq: "inserted name asset d = dict_del name d @ [(name, asset)]"
  by (simp add: inserted_def dict_pop_def dict_set_absent dict_del_removes)

lemma length_inserted: "length (inserted name asset d) \<le> Suc (length d)"
  using length_dict_del [of name d] by (simp add: inserted_eq)

lemma distinct_inserted:
  "distinct (map fst d) \<Longrightarrow> distinct (map fst (inserted name asset d))"
  using dict_del_removes [of name d] by (simp add: inserted_eq distinct_dict_del)

text \<open>Deleting the first \<open>n\<close> keys of a dictionary drops its first \<open>n\<close> entries.\<close>

lemma cull_is_drop:
  "distinct (map fst d) \<Longrightarrow> fold dict_del (map fst (take n d)) d = drop n d"
proof (induction d arbitrary: n)
  case Nil
  then show ?case by simp
next
  case (Cons kv d)
  show ?case
  proof (cases n)
    case 0
    then show ?thesis by simp
  next
    case (Suc n')
    from Cons.prems have "fst kv \<notin> fst ` set d" "distinct (map fst d)"
      by auto
    then have "dict_del (fst kv) (kv # d) = d"
      using dict_del_absent [of "fst kv" d] by (simp add: dict_del_def)
    with Suc Cons.IH [OF \<open>distinct (map fst d)\<close>, of n'] show ?thesis
      by simp
  qed
qed

lemma add_bounded:
  assumes "K < M" "bounded M K m"
  shows "\<exists>m'. add name asset mem m = (Inr (), m') \<and> bounded M K m' \<and>
              (purge_triggered name asset m \<longrightarrow> get_count m' = K)"
proof -
  let ?d = "inserted name asset (cache m)"
  have len: "length ?d \<le> M"
    using assms length_inserted [of name asset "cache m"] by (simp add: bounded_def)
  have dist: "distinct (map fst ?d)"
    using assms by (simp add: bounded_def distinct_inserted)
  show ?thesis
  proof (cases "length ?d \<ge> M")
    case True
    with len have eq: "length ?d = M" by simp
    from assms(1) have amount: "nat (int M - int K) = M - K" by simp
    have "distinct (map fst (drop (M - K) ?d))"
      using dist by (simp add: drop_map [symmetric])
    with assms True dist eq amount show ?thesis
      by (simp add: add_def u_maybe_purge_def u_purge_def Let_def bounded_def
            purge_triggered_def get_count_def cull_is_drop)
  next
    case False
    with assms dist show ?thesis
      by (simp add: add_def u_maybe_purge_def Let_def bounded_def purge_triggered_def)
  qed
qed

lemma add_all_bounded:
  assumes "K < M"
  shows "bounded M K m \<Longrightarrow> \<exists>m'. add_all ops m = (Inr (), m') \<and> bounded M K m'"
proof (induction ops arbitrary: m)
  case Nil
  then show ?case by simp
next
  case (Cons op ops)
  obtain name asset mem where op: "op = (name, asset, mem)"
    by (cases op) auto
  from add_bounded [OF assms Cons.prems, of name asset mem]
  obtain m1 where m1: "add name asset mem m = (Inr (), m1)" "bounded M K m1"
    by blast
  from Cons.IH [OF m1(2)] m1(1) op show ?case
    by simp
qed

lemma bounded_init: "0 < M \<Longrightarrow> bounded M K (UsageBasedCacheManager M mm K)"
  by (simp add: bounded_def UsageBasedCacheManager_def)

text \<open>
  Claim C4. A manager built with \<^verbatim>\<open>max_count = M\<close> and \<^verbatim>\<open>keep_count = K\<close>, \<open>K < M\<close>:
  every run of \<^verbatim>\<open>add\<close> calls from the empty cache completes without an exception, the
  entry count \<^verbatim>\<open>get_count\<close> after it is at most \<open>M\<close>, and a further \<^verbatim>\<open>add\<close> whose
  insertion reaches \<^verbatim>\<open>max_count\<close> (the purge is triggered) leaves exactly \<open>K\<close> entries.
\<close>

theorem usage_cache_bound:
  assumes "K < M"
  shows "\<exists>m. add_all ops (UsageBasedCacheManager M mm K) = (Inr (), m) \<and>
             get_count m \<le> M \<and>
             (\<forall>name asset mem. \<exists>m'. add name asset mem m = (Inr (), m') \<and>
                 get_count m' \<le> M \<and>
                 (purge_triggered name asset m \<longrightarrow> get_count m' = K))"
proof -
  from assms have "0 < M" by simp
  from add_all_bounded [OF assms bounded_init [OF this], of ops mm]
  obtain m where m: "add_all ops (UsageBasedCacheManager M mm K) = (Inr (), m)" "bounded M K m"
    by blast
  have "\<exists>m'. add name asset mem m = (Inr (), m') \<and> get_count m' \<le> M \<and>
            (purge_triggered name asset m \<longrightarrow> get_count m' = K)" for name asset mem
    using add_bounded [OF assms m(2), of name asset mem]
    by (auto simp: bounded_def get_count_def)
  moreover have "get_count m \<le> M"
    using m(2) by (auto simp: bounded_def get_count_def)
  ultimately show ?thesis
    using m(1) by blast
qed

theorem usage_cache_bound_witness:
  "(1::nat) < 2 \<and>
   (\<exists>m. add_all [(''a'', True, 10), (''a'', False, 5)] (UsageBasedCacheManager 2 0 1) = (Inr (), m) \<and>
        get_count m \<le> 2 \<and> purge_triggered ''b'' True m \<and>
        (\<exists>m'. add ''b'' True 7 m = (Inr (), m') \<and> get_count m' = 1))"
proof -
  have lt: "(1::nat) < 2" by simp
  from usage_cache_bound [OF lt, of "[(''a'', True, 10), (''a'', False, 5)]" 0]
  obtain m where m: "add_all [(''a'', True, 10), (''a'', False, 5)] (UsageBasedCacheManager 2 0 1) = (Inr (), m)"
      "get_count m \<le> 2"
      "\<And>name asset mem. \<exists>m'. add name asset mem m = (Inr (), m') \<and> get_count m' \<le> 2 \<and>
          (purge_triggered name asset m \<longrightarrow> get_count m' = 1)"
    by auto
  have "add_all [(''a'', True, 10), (''a'', False, 5)] (UsageBasedCacheManager 2 0 1) =
          (Inr (), \<lparr>cache = [(''a'', False)], max_count = 2, max_memory = 0, keep_count = 1,
               highest_memory_seen = 10, log = []\<rparr>)"
    by (simp add: add_def u_maybe_purge_def inserted_def dict_pop_def dict_del_def
          UsageBasedCacheManager_def)
  with m(1) have "cache m = [(''a'', False)]" "max_count m = 2"
    by auto
  then have "purge_triggered ''b'' True m"
    by (simp add: purge_triggered_def inserted_def dict_pop_def dict_del_def)
  with m(3) [of "''b''" True 7] m(1,2) show ?thesis
    by auto
qed

section \<open>Properties of the context-aware wrapper\<close>

lemma lookup_hit:
  "dict_get (cache m) name = Some asset \<Longrightarrow>
   lookup name m = (Some asset, m\<lparr>cache := dict_set name asset (dict_del name (cache m))\<rparr>)"
  by (simp add: lookup_def dict_pop_def)

text \<open>
  Claim C5. A name cached with a container that was stored from a partial parse: under a
  context that requires a full parse, \<^verbatim>\<open>ContextAwareCacheWrapper.lookup\<close> returns
  \<^verbatim>\<open>None\<close>, while the lookup of the wrapped manager on the same key returns the entry.
\<close>

theorem partial_entry_misses_full_lookup:
  assumes "dict_get (cache m) name = Some asset" and "ctx asset = PartialParse"
  shows "fst (wrapper_lookup FullParse name m) = None \<and> fst (lookup name m) = Some asset"
  using assms by (simp add: wrapper_lookup_def lookup_hit is_context_satisfied_def)

theorem partial_entry_misses_full_lookup_witness:
  "dict_get (cache \<lparr>cache = [(''/Game/A'',
        \<lparr>assetname = ''/Game/A'', leaf_name = ''A'', file_ext = ''.uasset'', exports = [],
         default_export = None, default_class = None, ctx = PartialParse\<rparr>)],
      max_count = 3000, max_memory = 0, keep_count = 500, highest_memory_seen = 0, log = []\<rparr>)
     ''/Game/A'' =
     Some \<lparr>assetname = ''/Game/A'', leaf_name = ''A'', file_ext = ''.uasset'', exports = [],
         default_export = None, default_class = None, ctx = PartialParse\<rparr> \<and>
   fst (wrapper_lookup FullParse ''/Game/A''
     \<lparr>cache = [(''/Game/A'',
        \<lparr>assetname = ''/Game/A'', leaf_name = ''A'', file_ext = ''.uasset'', exports = [],
         default_export = None, default_class = None, ctx = PartialParse\<rparr>)],
      max_count = 3000, max_memory = 0, keep_count = 500, highest_memory_seen = 0, log = []\<rparr>)
     = None"
proof -
  let ?a = "\<lparr>assetname = ''/Game/A'', leaf_name = ''A'', file_ext = ''.uasset'', exports = [],
         default_export = None, default_class = None, ctx = PartialParse\<rparr>"
  let ?m = "\<lparr>cache = [(''/Game/A'', ?a)],
      max_count = 3000, max_memory = 0, keep_count = 500, highest_memory_seen = 0, log = []\<rparr>"
  have h1: "dict_get (cache ?m) ''/Game/A'' = Some ?a"
    by (simp add: dict_get_def)
  have h2: "ctx ?a = PartialParse"
    by simp
  from partial_entry_misses_full_lookup [OF h1 h2] h1 show ?thesis
    by simp
qed

section \<open>Properties of asset names\<close>

lemma split_not_Nil: "split sep s \<noteq> []"
  by (induction s) auto

lemma join_Cons_char: "join [sep] ((c # p) # ps) = c # join [sep] (p # ps)"
  by (cases ps) auto

lemma join_Nil_Cons: "ps \<noteq> [] \<Longrightarrow> join [sep] ([] # ps) = sep # join [sep] ps"
  by (cases ps) auto

lemma join_split: "join [sep] (split sep s) = s"
proof (induction s)
  case Nil
  show ?case by simp
next
  case (Cons c cs)
  have ne: "split sep cs \<noteq> []" by (rule split_not_Nil)
  show ?case
  proof (cases "c = sep")
    case True
    with Cons ne show ?thesis by (simp add: join_Nil_Cons)
  next
    case False
    with Cons ne show ?thesis by (simp add: join_Cons_char)
  qed
qed

lemma split_no_sep: "sep \<notin> set p \<Longrightarrow> split sep p = [p]"
  by (induction p) auto

lemma split_append_sep: "sep \<notin> set p \<Longrightarrow> split sep (p @ sep # rest) = p # split sep rest"
  by (induction p) auto

lemma split_join:
  "ps \<noteq> [] \<Longrightarrow> \<forall>p \<in> set ps. sep \<notin> set p \<Longrightarrow> split sep (join [sep] ps) = ps"
proof (induction ps)
  case Nil
  then show ?case by simp
next
  case (Cons p ps)
  show ?case
  proof (cases ps)
    case Nil
    with Cons.prems show ?thesis by (simp add: split_no_sep)
  next
    case (Cons q qs)
    with Cons.IH Cons.prems have "split sep (join [sep] ps) = ps" by simp
    with Cons Cons.prems show ?thesis by (simp add: split_append_sep)
  qed
qed

lemma split_parts_no_sep: "p \<in> set (split sep s) \<Longrightarrow> sep \<notin> set p"
proof (induction s arbitrary: p)
  case Nil
  then show ?case by simp
next
  case (Cons c cs)
  have ne: "split sep cs \<noteq> []" by (rule split_not_Nil)
  then obtain h t where ht: "split sep cs = h # t" by (cases "split sep cs") auto
  with Cons show ?case by (auto split: if_splits)
qed

lemma split_parts_subset: "p \<in> set (split sep s) \<Longrightarrow> set p \<subseteq> set s"
proof (induction s arbitrary: p)
  case Nil
  then show ?case by simp
next
  case (Cons c cs)
  have ne: "split sep cs \<noteq> []" by (rule split_not_Nil)
  then obtain h t where ht: "split sep cs = h # t" by (cases "split sep cs") auto
  with Cons show ?case by (fastforce split: if_splits)
qed

lemma set_join_subset: "set (join sep ps) \<subseteq> set sep \<union> (\<Union>p \<in> set ps. set p)"
  by (induction sep ps rule: join.induct) auto

lemma set_strip_where: "set (strip_where P s) \<subseteq> set s"
proof -
  have "set (dropWhile P (rev (dropWhile P s))) \<subseteq> set (rev (dropWhile P s))"
    by (rule set_dropWhileD [THEN subsetI]) 
  also have "\<dots> \<subseteq> set s"
    using set_dropWhileD [of _ P s] by auto
  finally show ?thesis by (simp add: strip_where_def)
qed

lemma strip_where_id:
  "s = [] \<or> (\<not> P (hd s) \<and> \<not> P (last s)) \<Longrightarrow> strip_where P s = s"
proof (cases "s = []")
  case True
  then show ?thesis by (simp add: strip_where_def)
next
  case False
  assume "s = [] \<or> (\<not> P (hd s) \<and> \<not> P (last s))"
  with False have h: "\<not> P (hd s)" "\<not> P (last s)" by auto
  from False h(1) have 1: "dropWhile P s = s" by (cases s) auto
  from False h(2) have 2: "dropWhile P (rev s) = rev s"
    by (cases "rev s") (auto simp: hd_rev [symmetric] dest: arg_cong [where f = hd])
  from 1 2 show ?thesis by (simp add: strip_where_def)
qed


lemma slash_facts:
  "\<not> is_space CHR ''/''" "CHR ''/'' \<noteq> CHR 0x5C" "CHR ''/'' \<noteq> CHR ''.''"
  "lower ''Game'' \<noteq> ''content''"
  by (simp_all add: is_space_def lower_def lower_char_def)

lemma strip_where_drop_head: "P c \<Longrightarrow> strip_where P (c # s) = strip_where P s"
  by (simp add: strip_where_def)

lemma replace_char_absent: "a \<notin> set s \<Longrightarrow> replace_char a b s = s"
  by (induction s) (auto simp: replace_char_def)

lemma set_replace_char: "a \<noteq> b \<Longrightarrow> a \<notin> set (replace_char a b s)"
  by (auto simp: replace_char_def)

lemma set_replace_char_subset: "set (replace_char a b s) \<subseteq> insert b (set s)"
  by (auto simp: replace_char_def)

lemma clean_fixpoint:
  assumes dot: "CHR ''.'' \<notin> set s" and bs: "CHR 0x5C \<notin> set s"
    and trim: "s = [] \<or> (hd s \<noteq> CHR ''/'' \<and> last s \<noteq> CHR ''/'' \<and> \<not> is_space (last s))"
    and nomod: "\<not> (length (split CHR ''/'' s) > 2 \<and> lower (split CHR ''/'' s ! 1) = ''mods'' \<and>
                  isnumeric (split CHR ''/'' s ! 2))"
    and nocontent: "lower (split CHR ''/'' s ! 0) \<noteq> ''content''"
  shows "clean_asset_name R (CHR ''/'' # s) = Inr (CHR ''/'' # s)"
proof -
  have 1: "strip (CHR ''/'' # s) = CHR ''/'' # s"
    unfolding strip_def using trim slash_facts(1)
    by (intro strip_where_id) auto
  have "strip_where (\<lambda>x. x = CHR ''/'') s = s"
    using trim by (intro strip_where_id) auto
  then have 2: "strip_char CHR ''/'' (CHR ''/'' # s) = s"
    unfolding strip_char_def by (simp add: strip_where_drop_head)
  have 3: "strip_char (CHR 0x5C) s = s"
  proof (cases "s = []")
    case True
    then show ?thesis by (simp add: strip_char_def strip_where_def)
  next
    case False
    then have "hd s \<in> set s" "last s \<in> set s" by simp_all
    with bs have "hd s \<noteq> CHR 0x5C" "last s \<noteq> CHR 0x5C" by auto
    then show ?thesis
      unfolding strip_char_def by (intro strip_where_id) simp
  qed
  have 4: "replace_char (CHR 0x5C) CHR ''/'' s = s"
    using bs by (rule replace_char_absent)
  have 5: "join ''/'' (split CHR ''/'' s) = s"
    by (rule join_split)
  from dot have 0: "CHR ''.'' \<notin> set (CHR ''/'' # s)"
    by simp
  show ?thesis
    unfolding clean_asset_name_def Let_def
    using 0 nomod nocontent by (auto simp: 1 2 3 4 5)
qed


lemma clean_result_shape:
  assumes ok: "clean_asset_name R x = Inr r"
    and sane: "\<forall>i n. get_name_from_id R i = Some n \<longrightarrow> clean_mod_name n"
  shows "\<exists>parts2. r = CHR ''/'' # join ''/'' parts2 \<and> parts2 \<noteq> [] \<and>
           (\<forall>p \<in> set parts2. CHR ''/'' \<notin> set p \<and> CHR ''.'' \<notin> set p \<and> CHR 0x5C \<notin> set p) \<and>
           \<not> (length parts2 > 2 \<and> lower (parts2 ! 1) = ''mods'' \<and> isnumeric (parts2 ! 2)) \<and>
           lower (parts2 ! 0) \<noteq> ''content''"
proof -
  define name1 where "name1 = (if CHR ''.'' \<in> set x
                   then takeWhile (\<lambda>c. c \<noteq> CHR ''.'') x else x)"
  define name2 where "name2 = replace_char (CHR 0x5C) CHR ''/''
                    (strip_char (CHR 0x5C) (strip_char CHR ''/'' (strip name1)))"
  define parts where "parts = split CHR ''/'' name2"
  define converted where "converted =
            (if length parts > 2 \<and> lower (parts ! 1) = ''mods'' \<and> isnumeric (parts ! 2)
             then (case get_name_from_id R (parts ! 2) of
                     None \<Rightarrow> Inl (ModNotFound (parts ! 2))
                   | Some mod_name \<Rightarrow>
                       if mod_name = [] then Inl (ModNotFound (parts ! 2))
                       else Inr (parts[2 := mod_name]))
             else Inr parts)"
  have dot1: "CHR ''.'' \<notin> set name1"
    unfolding name1_def by (auto dest: set_takeWhileD)
  have sub: "set name2 \<subseteq> insert CHR ''/'' (set name1)"
    unfolding name2_def strip_def strip_char_def
    using set_replace_char_subset [of "CHR 0x5C" "CHR ''/''"] set_strip_where
    by (meson dual_order.trans insert_mono)
  with dot1 have dot2: "CHR ''.'' \<notin> set name2"
    by auto
  have bs2: "CHR 0x5C \<notin> set name2"
    unfolding name2_def by (rule set_replace_char) simp
  have parts_ok: "\<forall>p \<in> set parts. CHR ''/'' \<notin> set p \<and> CHR ''.'' \<notin> set p \<and> CHR 0x5C \<notin> set p"
    unfolding parts_def using split_parts_no_sep split_parts_subset dot2 bs2
    by blast
  have parts_ne: "parts \<noteq> []"
    unfolding parts_def by (rule split_not_Nil)
  from ok obtain parts1 where conv: "converted = Inr parts1"
    and r: "r = CHR ''/'' # join ''/'' (if parts1 \<noteq> [] \<and> lower (parts1 ! 0) = ''content''
                            then parts1[0 := ''Game''] else parts1)"
    unfolding clean_asset_name_def Let_def converted_def parts_def name2_def name1_def
    by (auto split: sum.splits)
  have p1: "parts1 \<noteq> [] \<and>
      (\<forall>p \<in> set parts1. CHR ''/'' \<notin> set p \<and> CHR ''.'' \<notin> set p \<and> CHR 0x5C \<notin> set p) \<and>
      \<not> (length parts1 > 2 \<and> lower (parts1 ! 1) = ''mods'' \<and> isnumeric (parts1 ! 2))"
  proof (cases "length parts > 2 \<and> lower (parts ! 1) = ''mods'' \<and> isnumeric (parts ! 2)")
    case True
    with conv obtain mod_name where mn: "get_name_from_id R (parts ! 2) = Some mod_name"
      and p1eq: "parts1 = parts[2 := mod_name]"
      unfolding converted_def by (auto split: option.splits if_splits)
    from sane mn have cm: "clean_mod_name mod_name" by blast
    have "\<forall>p \<in> set parts1. CHR ''/'' \<notin> set p \<and> CHR ''.'' \<notin> set p \<and> CHR 0x5C \<notin> set p"
    proof
      fix p assume "p \<in> set parts1"
      with p1eq have "p = mod_name \<or> p \<in> set parts"
        using set_update_subset_insert [of parts 2 mod_name] by auto
      with cm parts_ok show "CHR ''/'' \<notin> set p \<and> CHR ''.'' \<notin> set p \<and> CHR 0x5C \<notin> set p"
        by (auto simp: clean_mod_name_def)
    qed
    moreover from True p1eq cm have "\<not> isnumeric (parts1 ! 2)"
      by (simp add: clean_mod_name_def)
    ultimately show ?thesis using parts_ne p1eq by auto
  next
    case False
    with conv have "parts1 = parts" unfolding converted_def by auto
    with False parts_ok parts_ne show ?thesis by simp
  qed
  let ?parts2 = "if parts1 \<noteq> [] \<and> lower (parts1 ! 0) = ''content''
                            then parts1[0 := ''Game''] else parts1"
  have "?parts2 \<noteq> []" using p1 by simp
  moreover have "\<forall>p \<in> set ?parts2. CHR ''/'' \<notin> set p \<and> CHR ''.'' \<notin> set p \<and> CHR 0x5C \<notin> set p"
  proof
    fix p assume "p \<in> set ?parts2"
    then have "p = ''Game'' \<or> p \<in> set parts1"
      using set_update_subset_insert [of parts1 0 "''Game''"] by (auto split: if_splits)
    with p1 show "CHR ''/'' \<notin> set p \<and> CHR ''.'' \<notin> set p \<and> CHR 0x5C \<notin> set p"
      by auto
  qed
  moreover have "\<not> (length ?parts2 > 2 \<and> lower (?parts2 ! 1) = ''mods'' \<and> isnumeric (?parts2 ! 2))"
    using p1 by simp
  moreover have "lower (?parts2 ! 0) \<noteq> ''content''"
    using p1 slash_facts(4) by (cases parts1) auto
  ultimately show ?thesis using r by blast
qed


lemma well_trimmed_Cons:
  "well_trimmed (CHR ''/'' # s) \<Longrightarrow>
   s = [] \<or> (hd s \<noteq> CHR ''/'' \<and> last s \<noteq> CHR ''/'' \<and> \<not> is_space (last s))"
  by (cases s) (auto simp: well_trimmed_def startswith_def)

text \<open>
  Claim C3, as amended. A name \<open>x\<close> that \<^verbatim>\<open>clean_asset_name\<close> accepts, with a result that
  has nothing left to trim (it is \<^verbatim>\<open>/\<close>, or it neither begins with \<^verbatim>\<open>//\<close> nor ends
  with \<^verbatim>\<open>/\<close> or white space), under a resolver whose registered names are not numeric
  and hold no dot, slash or backslash: cleaning the result again returns it unchanged.
\<close>

theorem clean_asset_name_idempotent:
  assumes "clean_asset_name R x = Inr r"
    and "well_trimmed r"
    and "\<forall>i n. get_name_from_id R i = Some n \<longrightarrow> clean_mod_name n"
  shows "clean_asset_name R r = Inr r"
proof -
  from clean_result_shape [OF assms(1,3)]
  obtain parts2 where r: "r = CHR ''/'' # join ''/'' parts2" and ne: "parts2 \<noteq> []"
    and chars: "\<forall>p \<in> set parts2. CHR ''/'' \<notin> set p \<and> CHR ''.'' \<notin> set p \<and> CHR 0x5C \<notin> set p"
    and nomod: "\<not> (length parts2 > 2 \<and> lower (parts2 ! 1) = ''mods'' \<and> isnumeric (parts2 ! 2))"
    and nocontent: "lower (parts2 ! 0) \<noteq> ''content''"
    by blast
  let ?s = "join ''/'' parts2"
  have sp: "split CHR ''/'' ?s = parts2"
    using ne chars by (intro split_join) auto
  have "set ?s \<subseteq> set ''/'' \<union> (\<Union>p \<in> set parts2. set p)"
    by (rule set_join_subset)
  with chars have "CHR ''.'' \<notin> set ?s" "CHR 0x5C \<notin> set ?s"
    by auto
  moreover from assms(2) r
  have "?s = [] \<or> (hd ?s \<noteq> CHR ''/'' \<and> last ?s \<noteq> CHR ''/'' \<and> \<not> is_space (last ?s))"
    by (simp add: well_trimmed_Cons)
  ultimately have "clean_asset_name R (CHR ''/'' # ?s) = Inr (CHR ''/'' # ?s)"
    using nomod nocontent by (intro clean_fixpoint) (simp_all only: sp not_False_eq_True)
  with r show ?thesis by simp
qed

theorem clean_asset_name_idempotent_witness:
  "clean_asset_name example_resolver
      (CHR 0x5C # ''Content'' @ CHR 0x5C # ''mods'' @ CHR 0x5C # ''123/Foo.Foo_C'') =
     Inr ''/Game/mods/MyMod/Foo'' \<and>
   well_trimmed ''/Game/mods/MyMod/Foo'' \<and>
   get_name_from_id example_resolver ''123'' = Some ''MyMod'' \<and> clean_mod_name ''MyMod'' \<and>
   clean_asset_name example_resolver ''/Game/mods/MyMod/Foo'' = Inr ''/Game/mods/MyMod/Foo''"
proof -
  have h1: "clean_asset_name example_resolver
      (CHR 0x5C # ''Content'' @ CHR 0x5C # ''mods'' @ CHR 0x5C # ''123/Foo.Foo_C'') =
     Inr ''/Game/mods/MyMod/Foo''"
    by code_simp
  have h2: "well_trimmed ''/Game/mods/MyMod/Foo''"
    by code_simp
  have h4: "get_name_from_id example_resolver ''123'' = Some ''MyMod''"
    by (simp add: example_resolver_def)
  have h5: "clean_mod_name ''MyMod''"
    by code_simp
  then have h3: "\<forall>i n. get_name_from_id example_resolver i = Some n \<longrightarrow> clean_mod_name n"
    by (auto simp: example_resolver_def split: if_splits)
  from clean_asset_name_idempotent [OF h1 h2 h3] h1 h2 h4 h5 show ?thesis
    by blast
qed

text \<open>
  The claim as stated fails. \<^verbatim>\<open>a /\<close> is cleaned to \<^verbatim>\<open>/a \<close> (the blank is uncovered only
  after \<^verbatim>\<open>strip()\<close> has run), and that result is cleaned to \<^verbatim>\<open>/a\<close>. Under a resolver
  that registers the name \<^verbatim>\<open>2\<close> for the id \<^verbatim>\<open>1\<close> and \<^verbatim>\<open>3\<close> for \<^verbatim>\<open>2\<close>, the second
  cleaning resolves the name as an id again.
\<close>

theorem clean_asset_name_not_idempotent:
  "clean_asset_name example_resolver ''a /'' = Inr ''/a '' \<and>
   clean_asset_name example_resolver ''/a '' = Inr ''/a'' \<and>
   clean_asset_name numeric_resolver ''/Game/Mods/1/X'' = Inr ''/Game/Mods/2/X'' \<and>
   clean_asset_name numeric_resolver ''/Game/Mods/2/X'' = Inr ''/Game/Mods/3/X''"
  by code_simp

section \<open>Properties of the loader\<close>

lemma load_asset_try_raises:
  assumes "deserialise ops (prepared ops name mem ext) = Inl ex \<or>
           (\<exists>a1. deserialise ops (prepared ops name mem ext) = Inr a1 \<and> \<not> doNotLink \<and>
                 link ops a1 = Inl ex)"
  shows "load_asset_try ops name doNotLink mem ext = Raised (AssetParseError name ex)"
  using assms by (auto simp: load_asset_try_def)

lemma lcache_release: "lcache (release b st) = lcache st"
  by (simp add: release_def)

text \<open>
  Claim C1. A raw buffer was loaded for the asset name, and the deserialise phase or the
  link phase raises \<open>ex\<close>: \<^verbatim>\<open>_load_asset\<close> raises \<^verbatim>\<open>AssetParseError\<close> with that asset
  name and \<open>ex\<close> as its cause, and the cache is the one before the call: nothing was
  inserted.
\<close>

theorem parse_failure_is_asset_parse_error:
  assumes "load_raw_asset name = Inr (mem, ext)"
    and "deserialise ops (prepared ops name mem ext) = Inl ex \<or>
         (\<exists>a1. deserialise ops (prepared ops name mem ext) = Inr a1 \<and> \<not> doNotLink \<and>
               link ops a1 = Inl ex)"
  shows "fst (u_load_asset ops load_raw_asset name doNotLink quiet cache_result mem_used st) =
           Inl (AssetParseError name ex) \<and>
         lcache (snd (u_load_asset ops load_raw_asset name doNotLink quiet cache_result
                        mem_used st)) = lcache st"
  using assms(1) load_asset_try_raises [OF assms(2)]
  by (simp add: u_load_asset_def Let_def lcache_release)

theorem parse_failure_is_asset_parse_error_witness:
  "sample_raw ''/Game/Foo'' = Inr ([1, 2, 3], ''.uasset'') \<and>
   (\<exists>a1. deserialise failing_ops (prepared failing_ops ''/Game/Foo'' [1, 2, 3] ''.uasset'') = Inr a1 \<and>
         \<not> False \<and> link failing_ops a1 = Inl AssertionError) \<and>
   fst (u_load_asset failing_ops sample_raw ''/Game/Foo'' False False True 0 sample_loader) =
     Inl (AssetParseError ''/Game/Foo'' AssertionError) \<and>
   lcache (snd (u_load_asset failing_ops sample_raw ''/Game/Foo'' False False True 0
                  sample_loader)) = lcache sample_loader"
proof -
  have h1: "sample_raw ''/Game/Foo'' = Inr ([1, 2, 3], ''.uasset'')"
    by (simp add: sample_raw_def)
  have h2: "\<exists>a1. deserialise failing_ops (prepared failing_ops ''/Game/Foo'' [1, 2, 3] ''.uasset'') = Inr a1 \<and>
         \<not> False \<and> link failing_ops a1 = Inl AssertionError"
    by (simp add: failing_ops_def)
  from h2 have h3: "deserialise failing_ops (prepared failing_ops ''/Game/Foo'' [1, 2, 3] ''.uasset'') =
           Inl AssertionError \<or>
         (\<exists>a1. deserialise failing_ops (prepared failing_ops ''/Game/Foo'' [1, 2, 3] ''.uasset'') = Inr a1 \<and>
               \<not> False \<and> link failing_ops a1 = Inl AssertionError)"
    by blast
  from parse_failure_is_asset_parse_error
         [where load_raw_asset = sample_raw and name = "''/Game/Foo''" and ops = failing_ops
            and doNotLink = False and quiet = False and cache_result = True and mem_used = 0
            and st = sample_loader, OF h1 h3] h1 h2
  show ?thesis
    by blast
qed

text \<open>
  Claim C8. Whenever \<^verbatim>\<open>load_raw_asset\<close> has handed out a buffer, \<^verbatim>\<open>_load_asset\<close> leaves
  (by the return after linking, by the early return of a partial result, or by an
  exception) with that buffer released exactly once, and the earlier buffers as they
  were.
\<close>

theorem buffer_released_exactly_once:
  assumes "load_raw_asset name = Inr (mem, ext)"
  shows "buffers (snd (u_load_asset ops load_raw_asset name doNotLink quiet cache_result
                         mem_used st)) = buffers st @ [1]"
  using assms
  by (simp add: u_load_asset_def Let_def release_def
        split: outcome.splits prod.splits sum.splits)

theorem buffer_released_exactly_once_witness:
  "sample_raw ''/Game/Foo'' = Inr ([1, 2, 3], ''.uasset'') \<and>
   buffers (snd (u_load_asset failing_ops sample_raw ''/Game/Foo'' False False True 0
                   sample_loader)) = [1] \<and>
   buffers (snd (u_load_asset working_ops sample_raw ''/Game/Foo'' True False True 0
                   sample_loader)) = [1] \<and>
   buffers (snd (u_load_asset working_ops sample_raw ''/Game/Foo'' False False True 0
                   sample_loader)) = [1]"
proof -
  have h1: "sample_raw ''/Game/Foo'' = Inr ([1, 2, 3], ''.uasset'')"
    by (simp add: sample_raw_def)
  have b: "buffers sample_loader = []"
    by (simp add: sample_loader_def)
  note once = buffer_released_exactly_once
         [where load_raw_asset = sample_raw and name = "''/Game/Foo''" and quiet = False
            and cache_result = True and mem_used = 0 and st = sample_loader, OF h1]
  from once [of failing_ops False] once [of working_ops True] once [of working_ops False] h1 b
  show ?thesis
    by simp
qed

text \<open>
  Claim C10. A name whose cleaned form is not in the cache: \<^verbatim>\<open>remove\<close> of the
  usage-ordered manager, reached from \<^verbatim>\<open>AssetLoader.__delitem__\<close> through the wrapper,
  returns without an exception, leaves the dictionary and the rest of the manager as
  they were, and logs its debug line and the warning.
\<close>

theorem delitem_absent_is_noop:
  assumes "clean_asset_name (modresolver st) name = Inr cleaned"
    and "cleaned \<notin> fst ` set (cache (lcache st))"
  shows "delitem name st = (Inr (), st\<lparr>lcache := remove cleaned (lcache st)\<rparr>) \<and>
         remove cleaned (lcache st) =
           (lcache st)\<lparr>log := log (lcache st) @
              [Debug (''Removing cache entry: '' @ cleaned),
               Warning (''Attempt to remove asset that was not found: '' @ cleaned)]\<rparr> \<and>
         cache (lcache (snd (delitem name st))) = cache (lcache st)"
  using assms
  by (simp add: delitem_def wrapper_remove_def remove_def dict_pop_def dict_get_absent
        dict_del_absent)

theorem delitem_absent_is_noop_witness:
  "clean_asset_name (modresolver sample_loader) ''Game/Foo.Foo_C'' = Inr ''/Game/Foo'' \<and>
   ''/Game/Foo'' \<notin> fst ` set (cache (lcache sample_loader)) \<and>
   fst (delitem ''Game/Foo.Foo_C'' sample_loader) = Inr () \<and>
   cache (lcache (snd (delitem ''Game/Foo.Foo_C'' sample_loader))) = []"
proof -
  have h1: "clean_asset_name (modresolver sample_loader) ''Game/Foo.Foo_C'' = Inr ''/Game/Foo''"
    by code_simp
  have h2: "''/Game/Foo'' \<notin> fst ` set (cache (lcache sample_loader))"
    by (simp add: sample_loader_def UsageBasedCacheManager_def)
  have c: "cache (lcache sample_loader) = []"
    by (simp add: sample_loader_def UsageBasedCacheManager_def)
  from delitem_absent_is_noop [OF h1 h2] h1 h2 c show ?thesis
    by simp
qed

section \<open>Selection of the default export\<close>

lemma find_as_filter: "find P xs = (case filter P xs of [] \<Rightarrow> None | x # _ \<Rightarrow> Some x)"
  by (induction xs) auto

text \<open>
  Claim C2, as amended. The selection looks at the top-level exports only. If one of them
  is a template, the first template in table order is chosen, and the warning is logged
  when there are several. Otherwise, if exactly one top-level export is named as the
  leaf name (letter case apart), it is chosen; if several are, the warning is logged and
  no export is chosen; if none is, no export is chosen. No case is an error.
\<close>

theorem default_export_selection:
  "default_export (fst (select_default_export name asset)) =
     (case find is_template (top_level asset) of
        Some e \<Rightarrow> Some e
      | None \<Rightarrow> (case filter (names_leaf name) (top_level asset) of
                   [e] \<Rightarrow> Some e
                 | _ \<Rightarrow> None)) \<and>
   snd (select_default_export name asset) =
     (if length (filter is_template (top_level asset)) > 1
      then [Warning (''Found more than one Default__ entry in '' @ name @ ''!'')] else []) @
     (if find is_template (top_level asset) = None \<and>
         length (filter (names_leaf name) (top_level asset)) > 1
      then [Warning (''Found more than <assetname> export in '' @ name @ ''!'')] else [])"
proof -
  let ?tops = "filter (\<lambda>e. export_namespace e = ''None'') (exports asset)"
  let ?e1 = "filter (\<lambda>e. startswith (export_name e) ''Default__'') ?tops"
  let ?e2 = "filter (\<lambda>e. lower (export_name e) = lower (last (split CHR ''/'' name))) ?tops"
  have t: "filter is_template (top_level asset) = ?e1"
    by (simp add: top_level_def is_template_def [abs_def])
  have l: "filter (names_leaf name) (top_level asset) = ?e2"
    by (simp add: top_level_def names_leaf_def [abs_def])
  show ?thesis
  proof (cases ?e1)
    case Nil
    then show ?thesis
      unfolding find_as_filter t l
      by (cases ?e2; cases "tl ?e2") (simp_all add: select_default_export_def Let_def)
  next
    case (Cons e es)
    then show ?thesis
      unfolding find_as_filter t l
      by (simp add: select_default_export_def Let_def)
  qed
qed

text \<open>
  Two top-level exports named as the leaf name and no template: the code logs the
  warning and selects neither, where the claim has the first one selected.
\<close>

theorem ambiguous_leaf_name_selects_none:
  "top_level linked_sample =
     [\<lparr>export_name = ''Foo'', export_namespace = ''None'', export_klass = ''Y''\<rparr>,
      \<lparr>export_name = ''foo'', export_namespace = ''None'', export_klass = ''Z''\<rparr>] \<and>
   names_leaf ''/Game/Foo''
     \<lparr>export_name = ''Foo'', export_namespace = ''None'', export_klass = ''Y''\<rparr> \<and>
   default_export (fst (select_default_export ''/Game/Foo'' linked_sample)) = None \<and>
   snd (select_default_export ''/Game/Foo'' linked_sample) =
     [Warning ''Found more than <assetname> export in /Game/Foo!'']"
  by code_simp

text \<open>The selection runs on the linked asset, once, before the asset is cached.\<close>

lemma load_asset_selects_default:
  assumes "load_raw_asset name = Inr (mem, ext)"
    and "load_asset_try ops name doNotLink mem ext = Fell_through linked"
  shows "fst (u_load_asset ops load_raw_asset name doNotLink quiet False mem_used st) =
           Inr (fst (select_default_export name linked))"
  using assms by (simp add: u_load_asset_def Let_def split: prod.splits)

section \<open>Properties of the path-match memo\<close>

text \<open>A match that was found is recorded, and the repeated query does not scan.\<close>

lemma positive_result_memoised:
  assumes "find_caseinsensitive_path_match fs p s = (Inr (Some found), s')"
  shows "path_match_cache s' p = Some (Some found) \<and>
         find_caseinsensitive_path_match fs p s' = (Inr (Some found), s')"
  using assms
  by (auto simp: find_caseinsensitive_path_match_def Let_def
        split: option.splits if_splits sum.splits)

text \<open>
  Claim C7 fails on the code. The query \<^verbatim>\<open>Content/bar.uasset\<close> has no match in a
  directory that holds \<^verbatim>\<open>Foo.uasset\<close> only: the function returns \<^verbatim>\<open>None\<close>, the memo
  has no entry for the path afterwards, and the same query again iterates the directory
  a second time.
\<close>

theorem negative_result_not_memoised:
  "fst (find_caseinsensitive_path_match sample_fs [''Content'', ''bar.uasset''] empty_matcher) =
     Inr None \<and>
   path_match_cache
     (snd (find_caseinsensitive_path_match sample_fs [''Content'', ''bar.uasset''] empty_matcher))
     [''Content'', ''bar.uasset''] = None \<and>
   scans (snd (find_caseinsensitive_path_match sample_fs [''Content'', ''bar.uasset''] empty_matcher))
     = 1 \<and>
   scans (snd (find_caseinsensitive_path_match sample_fs [''Content'', ''bar.uasset'']
     (snd (find_caseinsensitive_path_match sample_fs [''Content'', ''bar.uasset'']
             empty_matcher)))) = 2"
  by code_simp

section \<open>Properties of the proxy update\<close>

lemma update_field_other: "i \<notin> fst ` set fv \<Longrightarrow> update_field fv tf i = tf i"
  by (induction fv arbitrary: tf) auto

lemma update_field_stored:
  "distinct (map fst fv) \<Longrightarrow> (i, v) \<in> set fv \<Longrightarrow> update_field fv tf i = Some v"
proof (induction fv arbitrary: tf)
  case Nil
  then show ?case by simp
next
  case (Cons iv fv)
  obtain j w where iv: "iv = (j, w)" by (cases iv) auto
  show ?case
  proof (cases "(i, v) = (j, w)")
    case True
    with Cons.prems iv have "i \<notin> fst ` set fv" by auto
    with True iv show ?thesis by (simp add: update_field_other)
  next
    case False
    with Cons iv show ?thesis by auto
  qed
qed

lemma update_field_keeps: "i \<in> dom tf \<Longrightarrow> i \<in> dom (update_field fv tf)"
proof (induction fv arbitrary: tf)
  case Nil
  then show ?case by simp
next
  case (Cons iv fv)
  obtain j w where iv: "iv = (j, w)" by (cases iv) auto
  from Cons.prems have "i \<in> dom (tf(j \<mapsto> w))" by simp
  from Cons.IH [OF this] show ?case
    unfolding iv update_field.simps .
qed

lemma update_returns: "\<exists>t'. update vals t = Inr t'"
  by (induction vals arbitrary: t) (auto simp: Let_def)

lemma update_other:
  "name \<notin> fst ` set vals \<Longrightarrow> update vals t = Inr t' \<Longrightarrow> t' name = t name"
  by (induction vals arbitrary: t) (auto simp: Let_def split: if_splits)

lemma update_named:
  "distinct (map fst vals) \<Longrightarrow> (name, fv) \<in> set vals \<Longrightarrow> update vals t = Inr t' \<Longrightarrow>
   t' name = Some (update_field fv (field_of t name))"
proof (induction vals arbitrary: t)
  case Nil
  then show ?case by simp
next
  case (Cons nv vals)
  obtain n fv0 where nv: "nv = (n, fv0)" by (cases nv) auto
  show ?case
  proof (cases "(name, fv) = (n, fv0)")
    case True
    with Cons.prems nv have absent: "name \<notin> fst ` set vals" by auto
    let ?t1 = "if t n = None then t(n \<mapsto> Map.empty) else t"
    let ?t2 = "?t1(n \<mapsto> update_field fv0 (field_of t n))"
    from Cons.prems(3) nv have u: "update vals ?t2 = Inr t'"
      by (auto simp: Let_def field_of_def split: if_splits option.splits)
    from update_other [OF absent u] True show ?thesis by simp
  next
    case False
    with Cons.prems nv have mem: "(name, fv) \<in> set vals" and ne: "name \<noteq> n"
      and d: "distinct (map fst vals)"
      by (auto simp: image_iff)
    from Cons.prems(3) nv ne Cons.IH [OF d mem] show ?thesis
      by (auto simp: Let_def field_of_def split: if_splits)
  qed
qed

lemma update_keeps_index:
  "t name = Some m \<Longrightarrow> i \<in> dom m \<Longrightarrow> update vals t = Inr t' \<Longrightarrow>
   \<exists>m'. t' name = Some m' \<and> i \<in> dom m'"
proof (induction vals arbitrary: t m)
  case Nil
  then show ?case by auto
next
  case (Cons nv vals)
  obtain n fv0 where nv: "nv = (n, fv0)" by (cases nv) auto
  show ?case
  proof (cases "n = name")
    case True
    let ?t1 = "t(name \<mapsto> update_field fv0 m)"
    from Cons.prems nv True have "update vals ?t1 = Inr t'"
      by (simp add: Let_def)
    moreover have "?t1 name = Some (update_field fv0 m)" by simp
    moreover from Cons.prems(2) have "i \<in> dom (update_field fv0 m)"
      by (rule update_field_keeps)
    ultimately show ?thesis by (rule Cons.IH [rotated 2])
  next
    case False
    let ?t1 = "if t n = None then t(n \<mapsto> Map.empty) else t"
    let ?t2 = "?t1(n \<mapsto> update_field fv0 (field_of ?t1 n))"
    from Cons.prems(3) nv have "update vals ?t2 = Inr t'"
      by (auto simp: Let_def field_of_def split: if_splits option.splits)
    moreover from False Cons.prems(1) have "?t2 name = Some m" by simp
    ultimately show ?thesis using Cons.prems(2) by (rule Cons.IH [rotated 2])
  qed
qed

lemma update_untouched_index:
  "t name = Some m \<Longrightarrow> \<forall>fv. (name, fv) \<in> set vals \<longrightarrow> i \<notin> fst ` set fv \<Longrightarrow>
   update vals t = Inr t' \<Longrightarrow> \<exists>m'. t' name = Some m' \<and> m' i = m i"
proof (induction vals arbitrary: t m)
  case Nil
  then show ?case by auto
next
  case (Cons nv vals)
  obtain n fv0 where nv: "nv = (n, fv0)" by (cases nv) auto
  from Cons.prems(2) have rest: "\<forall>fv. (name, fv) \<in> set vals \<longrightarrow> i \<notin> fst ` set fv"
    by auto
  show ?case
  proof (cases "n = name")
    case True
    let ?t1 = "t(name \<mapsto> update_field fv0 m)"
    from Cons.prems nv True have u: "update vals ?t1 = Inr t'"
      by (simp add: Let_def)
    from Cons.prems(2) nv True have "i \<notin> fst ` set fv0" by auto
    then have same: "update_field fv0 m i = m i" by (rule update_field_other)
    have "?t1 name = Some (update_field fv0 m)" by simp
    from Cons.IH [OF this rest u] same show ?thesis by simp
  next
    case False
    let ?t1 = "if t n = None then t(n \<mapsto> Map.empty) else t"
    let ?t2 = "?t1(n \<mapsto> update_field fv0 (field_of ?t1 n))"
    from Cons.prems(3) nv have u: "update vals ?t2 = Inr t'"
      by (auto simp: Let_def field_of_def split: if_splits option.splits)
    from False Cons.prems(1) have "?t2 name = Some m" by simp
    from Cons.IH [OF this rest u] show ?thesis .
  qed
qed

text \<open>
  Claim C9. The overrides are a mapping of mappings, so their keys are distinct. For every
  proxy, \<^verbatim>\<open>update\<close> returns without an exception, and in the proxy it leaves: every
  override value is stored at its field and index; every field named in the overrides
  exists, also one that was not a field before; every index present before is still
  present; and an index that the overrides do not mention for its field keeps its value.
\<close>

theorem update_merges_overrides:
  assumes "distinct (map fst vals)"
    and "\<forall>(name, fv) \<in> set vals. distinct (map fst fv)"
  shows "\<exists>t'. update vals t = Inr t' \<and>
           (\<forall>name fv i v. (name, fv) \<in> set vals \<and> (i, v) \<in> set fv \<longrightarrow>
               (\<exists>m'. t' name = Some m' \<and> m' i = Some v)) \<and>
           (\<forall>name fv. (name, fv) \<in> set vals \<longrightarrow> name \<in> dom t') \<and>
           (\<forall>name m i. t name = Some m \<and> i \<in> dom m \<longrightarrow>
               (\<exists>m'. t' name = Some m' \<and> i \<in> dom m' \<and>
                     ((\<forall>fv. (name, fv) \<in> set vals \<longrightarrow> i \<notin> fst ` set fv) \<longrightarrow> m' i = m i)))"
proof -
  from update_returns obtain t' where t': "update vals t = Inr t'"
    by blast
  have stored: "\<exists>m'. t' name = Some m' \<and> m' i = Some v"
    if "(name, fv) \<in> set vals" "(i, v) \<in> set fv" for name fv i v
  proof -
    from assms(2) that(1) have "distinct (map fst fv)" by auto
    with that(2) have "update_field fv (field_of t name) i = Some v"
      by (intro update_field_stored)
    with update_named [OF assms(1) that(1) t'] show ?thesis by simp
  qed
  have created: "name \<in> dom t'" if "(name, fv) \<in> set vals" for name fv
    using update_named [OF assms(1) that t'] by auto
  have kept: "\<exists>m'. t' name = Some m' \<and> i \<in> dom m' \<and>
        ((\<forall>fv. (name, fv) \<in> set vals \<longrightarrow> i \<notin> fst ` set fv) \<longrightarrow> m' i = m i)"
    if "t name = Some m" "i \<in> dom m" for name m i
  proof -
    from update_keeps_index [OF that t'] obtain m' where m': "t' name = Some m'" "i \<in> dom m'"
      by blast
    moreover have "m' i = m i" if "\<forall>fv. (name, fv) \<in> set vals \<longrightarrow> i \<notin> fst ` set fv"
      using update_untouched_index [OF \<open>t name = Some m\<close> that t'] m'(1) by auto
    ultimately show ?thesis by blast
  qed
  show ?thesis
  proof (intro exI [of _ t'] conjI allI impI)
    show "update vals t = Inr t'" by (rule t')
  next
    fix name fv i v
    assume "(name, fv) \<in> set vals \<and> (i, v) \<in> set fv"
    then show "\<exists>m'. t' name = Some m' \<and> m' i = Some v"
      using stored by blast
  next
    fix name fv
    assume "(name, fv) \<in> set vals"
    then show "name \<in> dom t'" by (rule created)
  next
    fix name m i
    assume "t name = Some m \<and> i \<in> dom m"
    then show "\<exists>m'. t' name = Some m' \<and> i \<in> dom m' \<and>
        ((\<forall>fv. (name, fv) \<in> set vals \<longrightarrow> i \<notin> fst ` set fv) \<longrightarrow> m' i = m i)"
      using kept by blast
  qed
qed

theorem update_merges_overrides_witness:
  "distinct (map fst [(''Health'', [(1::int, 75::nat), (2, 7)]), (''Stamina'', [(0, 9)])]) \<and>
   distinct (map fst [(1::int, 75::nat), (2, 7)]) \<and> distinct (map fst [(0::int, 9::nat)]) \<and>
   (\<exists>t'. update [(''Health'', [(1, 75), (2, 7)]), (''Stamina'', [(0, 9)])] sample_proxy = Inr t' \<and>
         field_of t' ''Health'' 1 = Some 75 \<and> field_of t' ''Health'' 2 = Some 7 \<and>
         field_of t' ''Stamina'' 0 = Some 9 \<and> field_of t' ''Health'' 0 = Some 100)"
proof -
  let ?vals = "[(''Health'', [(1::int, 75::nat), (2, 7)]), (''Stamina'', [(0, 9)])]"
  have h1: "distinct (map fst ?vals)" by simp
  have h2: "\<forall>(name, fv) \<in> set ?vals. distinct (map fst fv)" by simp
  have s: "sample_proxy ''Health'' = Some [0 \<mapsto> 100, 1 \<mapsto> 50]"
    by (simp add: sample_proxy_def)
  from update_merges_overrides [OF h1 h2, of sample_proxy]
  obtain t' where t': "update ?vals sample_proxy = Inr t'"
    and stored: "\<And>name fv i v. (name, fv) \<in> set ?vals \<and> (i, v) \<in> set fv \<Longrightarrow>
               (\<exists>m'. t' name = Some m' \<and> m' i = Some v)"
    and kept: "\<And>name m i. sample_proxy name = Some m \<and> i \<in> dom m \<Longrightarrow>
               (\<exists>m'. t' name = Some m' \<and> i \<in> dom m' \<and>
                     ((\<forall>fv. (name, fv) \<in> set ?vals \<longrightarrow> i \<notin> fst ` set fv) \<longrightarrow> m' i = m i))"
    by blast
  from stored [of "''Health''" "[(1, 75), (2, 7)]" 1 75]
  have a: "field_of t' ''Health'' 1 = Some 75" by (auto simp: field_of_def)
  from stored [of "''Health''" "[(1, 75), (2, 7)]" 2 7]
  have b: "field_of t' ''Health'' 2 = Some 7" by (auto simp: field_of_def)
  from stored [of "''Stamina''" "[(0, 9)]" 0 9]
  have c: "field_of t' ''Stamina'' 0 = Some 9" by (auto simp: field_of_def)
  from kept [of "''Health''" "[0 \<mapsto> 100, 1 \<mapsto> 50]" 0] s
  have d: "field_of t' ''Health'' 0 = Some 100" by (auto simp: field_of_def)
  from h1 t' a b c d show ?thesis by simp
qed

section \<open>Properties of the instanced-geometry parser\<close>

lemma then_do_Inr: "then_do r f = Inr y \<Longrightarrow> \<exists>v. r = Inr v \<and> f v = Inr y"
  by (cases r) (auto simp: then_do_def)

lemma struct_size_mismatch_raises:
  assumes "stored_struct_size s = Inr sz" and "sz \<noteq> 80"
  shows "u_deserialise s = Inl AssertionError"
  using assms
  by (auto simp: stored_struct_size_def u_deserialise_def then_do_def
        split: sum.splits prod.splits)

text \<open>Instance data is returned only after the struct size 80 was read.\<close>

lemma instances_need_struct_size:
  assumes "u_deserialise s = Inr r"
  shows "stored_struct_size s = Inr 80"
  using assms
  by (auto simp: stored_struct_size_def u_deserialise_def then_do_def
        split: sum.splits prod.splits if_splits)

text \<open>
  Claim C6. The stored struct size that the parser reads is not 80: the parser raises
  (the assertion fails) and so returns no \<^verbatim>\<open>visible_instances\<close>; and a call of
  \<^verbatim>\<open>_load_asset\<close> whose deserialise phase lets that exception through raises
  \<^verbatim>\<open>AssetParseError\<close> for the asset name and leaves the cache as it was.
\<close>

theorem struct_size_mismatch_is_parse_error:
  assumes "stored_struct_size s = Inr sz" and "sz \<noteq> 80"
    and "load_raw_asset name = Inr (mem, ext)"
    and "raises_as (u_deserialise s) (deserialise ops (prepared ops name mem ext))"
  shows "u_deserialise s = Inl AssertionError \<and>
         fst (u_load_asset ops load_raw_asset name doNotLink quiet cache_result mem_used st) =
           Inl (AssetParseError name AssertionError) \<and>
         lcache (snd (u_load_asset ops load_raw_asset name doNotLink quiet cache_result
                        mem_used st)) = lcache st"
proof -
  have e: "u_deserialise s = Inl AssertionError"
    using assms(1,2) by (rule struct_size_mismatch_raises)
  with assms(4) have "deserialise ops (prepared ops name mem ext) = Inl AssertionError"
    by (simp add: raises_as_def)
  then have "load_asset_try ops name doNotLink mem ext =
               Raised (AssetParseError name AssertionError)"
    by (simp add: load_asset_try_def)
  with assms(3) e show ?thesis
    by (simp add: u_load_asset_def Let_def lcache_release)
qed

theorem struct_size_mismatch_is_parse_error_witness:
  "stored_struct_size bad_stream = Inr 81 \<and> (81::nat) \<noteq> 80 \<and>
   sample_raw ''/Game/Foo'' = Inr ([1, 2, 3], ''.uasset'') \<and>
   raises_as (u_deserialise bad_stream)
     (deserialise (blob_ops bad_stream)
        (prepared (blob_ops bad_stream) ''/Game/Foo'' [1, 2, 3] ''.uasset'')) \<and>
   u_deserialise bad_stream = Inl AssertionError \<and>
   fst (u_load_asset (blob_ops bad_stream) sample_raw ''/Game/Foo'' False False True 0
          sample_loader) = Inl (AssetParseError ''/Game/Foo'' AssertionError)"
proof -
  have h1: "stored_struct_size bad_stream = Inr 81"
    by code_simp
  have h2: "(81::nat) \<noteq> 80"
    by simp
  have h3: "sample_raw ''/Game/Foo'' = Inr ([1, 2, 3], ''.uasset'')"
    by (simp add: sample_raw_def)
  have h4: "raises_as (u_deserialise bad_stream)
     (deserialise (blob_ops bad_stream)
        (prepared (blob_ops bad_stream) ''/Game/Foo'' [1, 2, 3] ''.uasset''))"
    by (cases "u_deserialise bad_stream") (simp_all add: raises_as_def blob_ops_def then_do_def)
  from struct_size_mismatch_is_parse_error
         [where load_raw_asset = sample_raw and name = "''/Game/Foo''" and s = bad_stream
            and ops = "blob_ops bad_stream" and doNotLink = False and quiet = False
            and cache_result = True and mem_used = 0 and st = sample_loader,
          OF h1 h2 h3 h4] h1 h2 h3 h4
  show ?thesis
    by simp
qed

end
